theory Spec2Isabelle
  imports Complex_Main
begin

section \<open>The dork parser of Kill.py: data\<close>

text \<open>
  The model follows \<^verbatim>\<open>class DorkParser\<close> of \<^verbatim>\<open>src/Kill.py\<close>. The statistics
  dictionary \<^verbatim>\<open>self.stats\<close> is a record with the keys of the source; Python integers
  are \<open>int\<close>. The clock (\<^verbatim>\<open>time.time()\<close>) is a Python float in the source and an
  exact rational here: rounding of floating-point arithmetic is not modelled.
\<close>

datatype engine = Google | Bing | Duckduckgo | Yahoo

text \<open>The keys of \<^verbatim>\<open>self.search_engines\<close>, in insertion order.\<close>

definition search_engines :: "engine list" where
  "search_engines = [Google, Bing, Duckduckgo, Yahoo]"

record stats =
  total_dorks :: int
  checked_dorks :: int
  urls_parsed :: int
  error_dorks :: int
  retry_dorks :: int
  working_engines :: "engine list"
  start_time :: rat

text \<open>\<^verbatim>\<open>__init__\<close>, lines 32-40: every counter is 0, no engine is listed.\<close>

definition init_stats :: "rat \<Rightarrow> stats" where
  "init_stats now =
     \<lparr>total_dorks = 0, checked_dorks = 0, urls_parsed = 0, error_dorks = 0,
      retry_dorks = 0, working_engines = [], start_time = now\<rparr>"

text \<open>
  What the program can change outside its own variables: the three output files (the text
  of each, \<open>None\<close> when the file does not exist), the number of calls of
  \<^verbatim>\<open>setup_chrome_driver\<close> made so far (one browser start is requested per attempt at a
  dork), and whether the statistics thread has been started.
\<close>

record world =
  stats :: stats
  results_file :: "string option"
  errors_file :: "string option"
  retries_file :: "string option"
  setup_calls :: nat
  reporter_started :: bool

definition init_world :: "rat \<Rightarrow> world" where
  "init_world now =
     \<lparr>stats = init_stats now, results_file = None, errors_file = None,
      retries_file = None, setup_calls = 0, reporter_started = False\<rparr>"

datatype exn = ValueError | WebDriverException | OSError

subsection \<open>What the browser and the file system answer\<close>

text \<open>
  One attempt at a dork (one iteration of the \<^verbatim>\<open>while\<close> loop of \<^verbatim>\<open>process_dork\<close>)
  depends on the outside world at these places:
  \<^item> \<^verbatim>\<open>setup_chrome_driver\<close> (line 299) returns a driver or \<^verbatim>\<open>None\<close>; it catches every
    exception itself (lines 154-156);
  \<^item> \<^verbatim>\<open>driver.get\<close> and \<^verbatim>\<open>find_elements\<close> inside \<^verbatim>\<open>get_search_results\<close> raise, or
    give the \<^verbatim>\<open>href\<close> attribute (a string or \<^verbatim>\<open>None\<close>) of each element found;
  \<^item> \<^verbatim>\<open>driver.quit()\<close> at line 327 returns or raises;
  \<^item> opening \<^verbatim>\<open>results.txt\<close> for appending (line 332) succeeds or raises;
  \<^item> \<^verbatim>\<open>driver.quit()\<close> in the exception handler (line 346) returns or raises.
  After the loop, opening \<^verbatim>\<open>errors.txt\<close> (line 351) succeeds or raises.
\<close>

datatype fetch = Fetch_error | Elements "string option list"

record attempt =
  driver_ok :: bool
  page_fetch :: "engine \<Rightarrow> nat \<Rightarrow> fetch"
  quit_raises :: bool
  save_raises :: bool
  cleanup_raises :: bool

record task_env =
  attempt_of :: "nat \<Rightarrow> attempt"
  errors_write_raises :: bool

section \<open>get_search_results\<close>

definition startswith :: "string \<Rightarrow> string \<Rightarrow> bool" where
  "startswith s p = (take (length p) s = p)"

fun contains :: "string \<Rightarrow> string \<Rightarrow> bool" where
  "contains p [] = (p = [])"
| "contains p (c # s) = (if startswith (c # s) p then True else contains p s)"

text \<open>
  Lines 252-278: an element is kept when its \<^verbatim>\<open>href\<close> is a non-empty string that starts
  with \<^verbatim>\<open>http\<close>; for Google it must also not mention \<^verbatim>\<open>google.com\<close>.
\<close>

fun keep_href :: "engine \<Rightarrow> string option \<Rightarrow> bool" where
  "keep_href engine None = False"
| "keep_href Google (Some href) =
     (href \<noteq> [] \<and> startswith href ''http'' \<and> \<not> contains ''google.com'' href)"
| "keep_href engine (Some href) = (href \<noteq> [] \<and> startswith href ''http'')"

text \<open>
  Lines 232-284. Every exception raised in the body is caught at line 282 and the empty
  list is returned, so the function always returns a list of links. The URL that is
  requested and the random delay have no part in the result beyond the answer of the
  browser, which is the argument \<open>f\<close>.
\<close>

definition get_search_results :: "fetch \<Rightarrow> engine \<Rightarrow> string list" where
  "get_search_results f engine =
     (case f of
        Fetch_error \<Rightarrow> []
      | Elements hrefs \<Rightarrow> map the (filter (keep_href engine) hrefs))"

section \<open>process_dork\<close>

text \<open>Lines 315-316, under \<^verbatim>\<open>self.lock\<close>.\<close>

definition add_urls :: "nat \<Rightarrow> world \<Rightarrow> world" where
  "add_urls n w = w\<lparr>stats := (stats w)\<lparr>urls_parsed := urls_parsed (stats w) + int n\<rparr>\<rparr>"

text \<open>Lines 308-309, outside any lock.\<close>

definition note_engine :: "engine \<Rightarrow> world \<Rightarrow> world" where
  "note_engine engine w =
     (if engine \<in> set (working_engines (stats w)) then w
      else w\<lparr>stats := (stats w)\<lparr>working_engines := working_engines (stats w) @ [engine]\<rparr>\<rparr>)"

text \<open>\<^verbatim>\<open>range(pages)\<close>: empty when \<open>pages \<le> 0\<close>.\<close>

definition range_py :: "int \<Rightarrow> nat list" where
  "range_py n = [0..<nat n]"

text \<open>The loop over the pages, lines 311-316.\<close>

primrec pages_loop ::
  "(nat \<Rightarrow> string list) \<Rightarrow> nat list \<Rightarrow> string list \<times> world \<Rightarrow> string list \<times> world" where
  "pages_loop results [] acc = acc"
| "pages_loop results (page # rest) acc =
     pages_loop results rest
       (fst acc @ results page, add_urls (length (results page)) (snd acc))"

text \<open>
  The loop over the engines, lines 306-325. Nothing in the body of its \<^verbatim>\<open>try\<close> can raise:
  \<^verbatim>\<open>get_search_results\<close> returns a list in every case, and the rest appends to lists and
  adds to a counter. So the handler of lines 321-325 is never entered, the first engine
  runs all its pages, and \<^verbatim>\<open>break\<close> (line 319) leaves the loop.
\<close>

fun engines_loop ::
  "attempt \<Rightarrow> int \<Rightarrow> engine list \<Rightarrow> string list \<times> world \<Rightarrow> string list \<times> world" where
  "engines_loop a pages [] acc = acc"
| "engines_loop a pages (engine # rest) acc =
     pages_loop (\<lambda>page. get_search_results (page_fetch a engine page) engine)
       (range_py pages) (fst acc, note_engine engine (snd acc))"

definition nl :: string where
  "nl = [CHR 0x0A]"

text \<open>Lines 333-335: what is appended to \<^verbatim>\<open>results.txt\<close>.\<close>

definition results_entry :: "string \<Rightarrow> string list \<Rightarrow> string" where
  "results_entry dork links =
     nl @ ''# Dork: '' @ dork @ nl @ concat (map (\<lambda>link. link @ nl) links)"

definition append_text :: "string option \<Rightarrow> string \<Rightarrow> string option" where
  "append_text file text = Some ((case file of None \<Rightarrow> [] | Some old \<Rightarrow> old) @ text)"

text \<open>Lines 331-337, under \<^verbatim>\<open>self.lock\<close>, when the file could be opened.\<close>

definition save_results :: "string \<Rightarrow> string list \<Rightarrow> world \<Rightarrow> world" where
  "save_results dork links w =
     w\<lparr>results_file := append_text (results_file w) (results_entry dork links),
       stats := (stats w)\<lparr>checked_dorks := checked_dorks (stats w) + 1\<rparr>\<rparr>"

text \<open>
  Lines 349-352, under \<^verbatim>\<open>self.lock\<close>: the counter is increased first, then the file is
  opened; when opening raises, the counter keeps its new value.
\<close>

definition count_error :: "string \<Rightarrow> bool \<Rightarrow> world \<Rightarrow> world" where
  "count_error dork raises w =
     (let w' = w\<lparr>stats := (stats w)\<lparr>error_dorks := error_dorks (stats w) + 1\<rparr>\<rparr>
      in if raises then w'
         else w'\<lparr>errors_file := append_text (errors_file w') (dork @ nl)\<rparr>)"

text \<open>
  The \<^verbatim>\<open>while\<close> loop of lines 291-346 and what follows it. The local variables
  \<^verbatim>\<open>retries\<close> and \<^verbatim>\<open>all_links\<close> are arguments; \<^verbatim>\<open>all_links\<close> is created once, before the
  loop (line 289). Attempt number \<open>retries\<close> is answered by \<open>env (nat retries)\<close>: every
  iteration that does not return adds one to \<^verbatim>\<open>retries\<close>. The result is what
  \<^verbatim>\<open>process_dork\<close> returns or raises, the final value of \<^verbatim>\<open>all_links\<close>, and the world.

  Inside the \<^verbatim>\<open>try\<close>, \<^verbatim>\<open>driver.quit()\<close> (line 327) can raise, and so can opening the
  results file (line 332), which is reached when \<^verbatim>\<open>all_links\<close> is not empty. Either lands
  in the handler of lines 342-346, which counts a retry and calls \<^verbatim>\<open>driver.quit()\<close>
  again; an exception of that call leaves \<^verbatim>\<open>process_dork\<close>.
\<close>

function retry_loop ::
  "(nat \<Rightarrow> attempt) \<Rightarrow> bool \<Rightarrow> string \<Rightarrow> int \<Rightarrow> int \<Rightarrow> int \<Rightarrow> string list \<Rightarrow> world
     \<Rightarrow> (exn + bool) \<times> string list \<times> world" where
  "retry_loop env err_raises dork pages max_retries retries all_links w =
     (if retries < max_retries then
        (let a = env (nat retries);
             w1 = w\<lparr>setup_calls := Suc (setup_calls w)\<rparr>
         in if \<not> driver_ok a then
              retry_loop env err_raises dork pages max_retries (retries + 1) all_links w1
            else
              (let found = engines_loop a pages search_engines (all_links, w1);
                   raised = (if quit_raises a then True
                             else if fst found \<noteq> [] then save_raises a else False)
               in if raised then
                    (if cleanup_raises a then (Inl WebDriverException, fst found, snd found)
                     else retry_loop env err_raises dork pages max_retries (retries + 1)
                            (fst found) (snd found))
                  else if fst found \<noteq> [] then
                    (Inr True, fst found, save_results dork (fst found) (snd found))
                  else
                    retry_loop env err_raises dork pages max_retries (retries + 1)
                      (fst found) (snd found)))
      else
        (if err_raises then Inl OSError else Inr False,
         all_links, count_error dork err_raises w))"
  by pat_completeness auto
termination
  by (relation "measure (\<lambda>(env, err_raises, dork, pages, max_retries, retries, all_links, w).
        nat (max_retries - retries))") auto

declare retry_loop.simps [simp del]

text \<open>\<^verbatim>\<open>process_dork(self, dork, pages, max_retries=3)\<close>, lines 286-354.\<close>

definition process_dork ::
  "task_env \<Rightarrow> string \<Rightarrow> int \<Rightarrow> int \<Rightarrow> world \<Rightarrow> (exn + bool) \<times> world" where
  "process_dork env dork pages max_retries w =
     (let r = retry_loop (attempt_of env) (errors_write_raises env) dork pages max_retries 0 [] w
      in (fst r, snd (snd r)))"


text \<open>
  The links one attempt fetches: all pages of the first engine.
\<close>

definition attempt_links :: "attempt \<Rightarrow> int \<Rightarrow> string list" where
  "attempt_links a pages =
     concat (map (\<lambda>page. get_search_results (page_fetch a Google page) Google)
               (range_py pages))"


text \<open>
  Names for the parts of one iteration of the loop: the world when the search of an attempt
  is over (the driver was set up, the engine noted, the links of every page counted),
  whether the \<^verbatim>\<open>try\<close> block raises once the links found so far are \<open>found\<close>, and the
  links that attempt \<open>i\<close> fetches.
\<close>

definition after_search :: "attempt \<Rightarrow> int \<Rightarrow> world \<Rightarrow> world" where
  "after_search a pages w =
     add_urls (length (attempt_links a pages))
       (note_engine Google (w\<lparr>setup_calls := Suc (setup_calls w)\<rparr>))"

definition try_raises :: "attempt \<Rightarrow> string list \<Rightarrow> bool" where
  "try_raises a found =
     (if quit_raises a then True else if found \<noteq> [] then save_raises a else False)"

definition links_of :: "(nat \<Rightarrow> attempt) \<Rightarrow> int \<Rightarrow> nat \<Rightarrow> string list" where
  "links_of env pages i = (if driver_ok (env i) then attempt_links (env i) pages else [])"

text \<open>
  The links fetched by the first \<open>n\<close> attempts of a call; an attempt without a driver
  fetches nothing.
\<close>

definition collected :: "(nat \<Rightarrow> attempt) \<Rightarrow> int \<Rightarrow> nat \<Rightarrow> string list" where
  "collected env pages n = concat (map (links_of env pages) [0..<n])"

text \<open>
  What a call that started at attempt \<open>n\<close> with the links \<open>all_links\<close> in the world \<open>w\<close>
  has done when it ends with \<open>r\<close> after \<open>k\<close> attempts.
\<close>

definition call_summary ::
  "(nat \<Rightarrow> attempt) \<Rightarrow> string \<Rightarrow> int \<Rightarrow> nat \<Rightarrow> string list \<Rightarrow> world \<Rightarrow> nat
     \<Rightarrow> (exn + bool) \<times> string list \<times> world \<Rightarrow> bool" where
  "call_summary env dork pages n all_links w k r =
     (fst (snd r) = all_links @ concat (map (links_of env pages) [n..<n + k])
      \<and> setup_calls (snd (snd r)) = setup_calls w + k
      \<and> urls_parsed (stats (snd (snd r)))
          = urls_parsed (stats w) + int (length (concat (map (links_of env pages) [n..<n + k])))
      \<and> results_file (snd (snd r))
          = (if fst r = Inr True
             then append_text (results_file w) (results_entry dork (fst (snd r)))
             else results_file w))"

text \<open>Two worlds that agree on the keys \<^verbatim>\<open>total_dorks\<close>, \<^verbatim>\<open>start_time\<close> and \<^verbatim>\<open>retry_dorks\<close>.\<close>

definition same_frame :: "world \<Rightarrow> world \<Rightarrow> bool" where
  "same_frame w w' =
     (total_dorks (stats w') = total_dorks (stats w)
      \<and> start_time (stats w') = start_time (stats w)
      \<and> retry_dorks (stats w') = retry_dorks (stats w))"

section \<open>display_stats\<close>

text \<open>
  \<^verbatim>\<open>int(x)\<close> on a float truncates towards zero. The estimate is shown as
  \<^verbatim>\<open>str(timedelta(seconds=int(estimated_time)))\<close>; the model keeps the number of seconds.
\<close>

definition py_int :: "rat \<Rightarrow> int" where
  "py_int x = (if 0 \<le> x then \<lfloor>x\<rfloor> else \<lceil>x\<rceil>)"

datatype est = Calculating | Seconds int

text \<open>Lines 359-367, with \<open>now\<close> the value of \<^verbatim>\<open>time.time()\<close>.\<close>

definition est_time_str :: "rat \<Rightarrow> stats \<Rightarrow> est" where
  "est_time_str now s =
     (let elapsed = now - start_time s
      in if checked_dorks s > 0 then
           (let avg_time_per_dork = elapsed / of_int (checked_dorks s);
                remaining_dorks = total_dorks s - checked_dorks s;
                estimated_time = of_int remaining_dorks * avg_time_per_dork
            in Seconds (py_int estimated_time))
         else Calculating)"

text \<open>What one pass of the loop prints, lines 373-379.\<close>

record frame =
  shown_total :: int
  shown_checked :: int
  shown_urls :: int
  shown_errors :: int
  shown_retry :: int
  shown_engines :: "engine list"
  shown_est :: est

definition display_frame :: "rat \<Rightarrow> stats \<Rightarrow> frame" where
  "display_frame now s =
     \<lparr>shown_total = total_dorks s, shown_checked = checked_dorks s,
      shown_urls = urls_parsed s, shown_errors = error_dorks s,
      shown_retry = retry_dorks s, shown_engines = working_engines s,
      shown_est = est_time_str now s\<rparr>"

text \<open>Line 385: the condition under which the loop stops.\<close>

definition display_finished :: "stats \<Rightarrow> bool" where
  "display_finished s = (checked_dorks s + error_dorks s \<ge> total_dorks s)"

section \<open>Workers running side by side\<close>

text \<open>
  \<^verbatim>\<open>run\<close> hands every dork to a thread pool, so several calls of \<^verbatim>\<open>process_dork\<close>
  run at once on the same \<^verbatim>\<open>self.stats\<close>. A call is cut into the steps between which
  another thread can run. Each block \<^verbatim>\<open>with self.lock\<close> is one step, since no other
  worker can be inside such a block at the same time; the statistics thread reads without
  the lock, but each block changes a single key of \<^verbatim>\<open>self.stats\<close>, so it sees the
  dictionary either before or after the step. The test of line 308 and the
  \<^verbatim>\<open>append\<close> of line 309 hold no lock and are two steps.
\<close>

datatype action =
    Setup_driver
  | Check_engine engine
  | Append_engine engine
  | Add_urls nat
  | Save_results string "string list"
  | Count_error string bool
  | Finish "exn + bool"

text \<open>The steps that the source performs inside \<^verbatim>\<open>with self.lock\<close>.\<close>

fun under_lock :: "action \<Rightarrow> bool" where
  "under_lock (Add_urls n) = True"
| "under_lock (Save_results dork links) = True"
| "under_lock (Count_error dork raises) = True"
| "under_lock a = False"


fun engines_actions :: "attempt \<Rightarrow> int \<Rightarrow> engine list \<Rightarrow> action list" where
  "engines_actions a pages [] = []"
| "engines_actions a pages (engine # rest) =
     Check_engine engine # Append_engine engine #
     map (\<lambda>page. Add_urls (length (get_search_results (page_fetch a engine page) engine)))
       (range_py pages)"

text \<open>
  The steps of one call of \<^verbatim>\<open>process_dork\<close>, in order. No branch of
  \<^verbatim>\<open>process_dork\<close> depends on \<^verbatim>\<open>self.stats\<close>, so the steps are fixed by the answers of
  the browser and the file system. The last step hands the result to the future.
\<close>

function retry_actions ::
  "(nat \<Rightarrow> attempt) \<Rightarrow> bool \<Rightarrow> string \<Rightarrow> int \<Rightarrow> int \<Rightarrow> int \<Rightarrow> string list \<Rightarrow> action list" where
  "retry_actions env err_raises dork pages max_retries retries all_links =
     (if retries < max_retries then
        (let a = env (nat retries)
         in if \<not> driver_ok a then
              Setup_driver #
              retry_actions env err_raises dork pages max_retries (retries + 1) all_links
            else
              (let found = all_links @ attempt_links a pages;
                   raised = (if quit_raises a then True
                             else if found \<noteq> [] then save_raises a else False)
               in Setup_driver # engines_actions a pages search_engines @
                  (if raised then
                     (if cleanup_raises a then [Finish (Inl WebDriverException)]
                      else retry_actions env err_raises dork pages max_retries (retries + 1)
                             found)
                   else if found \<noteq> [] then [Save_results dork found, Finish (Inr True)]
                   else retry_actions env err_raises dork pages max_retries (retries + 1)
                          found)))
      else
        [Count_error dork err_raises, Finish (if err_raises then Inl OSError else Inr False)])"
  by pat_completeness auto
termination
  by (relation "measure (\<lambda>(env, err_raises, dork, pages, max_retries, retries, all_links).
        nat (max_retries - retries))") auto

declare retry_actions.simps [simp del]

definition dork_actions :: "task_env \<Rightarrow> string \<Rightarrow> int \<Rightarrow> int \<Rightarrow> action list" where
  "dork_actions env dork pages max_retries =
     retry_actions (attempt_of env) (errors_write_raises env) dork pages max_retries 0 []"

text \<open>
  The pool at work: the shared world, and for each submitted task the value read at line
  308 (\<^verbatim>\<open>engine not in self.stats['working_engines']\<close>), its future, the steps it has
  made and the steps it has still to make.
\<close>

record config =
  shared :: world
  not_listed :: "bool list"
  futures :: "(exn + bool) option list"
  executed :: "action list list"
  pending :: "action list list"

fun apply_action :: "nat \<Rightarrow> action \<Rightarrow> config \<Rightarrow> config" where
  "apply_action i Setup_driver c =
     c\<lparr>shared := (shared c)\<lparr>setup_calls := Suc (setup_calls (shared c))\<rparr>\<rparr>"
| "apply_action i (Check_engine engine) c =
     c\<lparr>not_listed :=
         (not_listed c)[i := engine \<notin> set (working_engines (stats (shared c)))]\<rparr>"
| "apply_action i (Append_engine engine) c =
     (if not_listed c ! i then
        c\<lparr>shared := (shared c)\<lparr>stats := (stats (shared c))
             \<lparr>working_engines := working_engines (stats (shared c)) @ [engine]\<rparr>\<rparr>\<rparr>
      else c)"
| "apply_action i (Add_urls n) c = c\<lparr>shared := add_urls n (shared c)\<rparr>"
| "apply_action i (Save_results dork links) c =
     c\<lparr>shared := save_results dork links (shared c)\<rparr>"
| "apply_action i (Count_error dork raises) c =
     c\<lparr>shared := count_error dork raises (shared c)\<rparr>"
| "apply_action i (Finish r) c = c\<lparr>futures := (futures c)[i := Some r]\<rparr>"

text \<open>Task \<open>i\<close> makes its next step, if it has one.\<close>

definition step :: "nat \<Rightarrow> config \<Rightarrow> config" where
  "step i c =
     (if i < length (pending c) then
        (case pending c ! i of
           [] \<Rightarrow> c
         | a # rest \<Rightarrow>
             (apply_action i a c)
               \<lparr>executed := (executed c)[i := executed c ! i @ [a]],
                pending := (pending c)[i := rest]\<rparr>)
      else c)"

text \<open>
  A schedule names the task that moves at each moment. Every order in which the threads of
  the pool can take their steps is a schedule (the pool lets at most \<^verbatim>\<open>max_workers\<close>
  tasks be under way at once, which only rules some schedules out).
\<close>

primrec exec_schedule :: "nat list \<Rightarrow> config \<Rightarrow> config" where
  "exec_schedule [] c = c"
| "exec_schedule (i # sched) c = exec_schedule sched (step i c)"

definition start_config :: "world \<Rightarrow> action list list \<Rightarrow> config" where
  "start_config w tasks =
     \<lparr>shared = w, not_listed = replicate (length tasks) False,
      futures = replicate (length tasks) None,
      executed = replicate (length tasks) [], pending = tasks\<rparr>"




text \<open>Task \<open>i\<close> makes the steps \<open>as\<close> one after the other, no other task in between.\<close>

definition uninterrupted :: "nat \<Rightarrow> action list \<Rightarrow> config \<Rightarrow> config" where
  "uninterrupted i as c = foldl (\<lambda>c a. apply_action i a c) c as"

text \<open>Two configurations that differ at most in the record of the steps made and left.\<close>

definition same_state :: "config \<Rightarrow> config \<Rightarrow> bool" where
  "same_state c c' =
     (shared c = shared c' \<and> not_listed c = not_listed c' \<and> futures c = futures c')"

section \<open>run\<close>

text \<open>
  Lines 426-429: one task per element of \<^verbatim>\<open>dorks\<close>, each a call
  \<^verbatim>\<open>process_dork(dork, pages)\<close> with the default \<^verbatim>\<open>max_retries=3\<close>.
\<close>

definition submit_all :: "(nat \<Rightarrow> task_env) \<Rightarrow> string list \<Rightarrow> int \<Rightarrow> action list list" where
  "submit_all envs dorks pages =
     map (\<lambda>i. dork_actions (envs i) (dorks ! i) pages 3) [0..<length dorks]"

text \<open>Lines 404-421: what \<^verbatim>\<open>run\<close> does before it creates the pool.\<close>

definition prepare :: "string list \<Rightarrow> world \<Rightarrow> world" where
  "prepare dorks w =
     (let w1 = w\<lparr>stats := (stats w)\<lparr>total_dorks := int (length dorks)\<rparr>\<rparr>;
          w2 = w1\<lparr>results_file := None, errors_file := None, retries_file := None\<rparr>
      in w2\<lparr>reporter_started := True\<rparr>)"

definition run_start :: "string list \<Rightarrow> int \<Rightarrow> (nat \<Rightarrow> task_env) \<Rightarrow> world \<Rightarrow> config" where
  "run_start dorks pages envs w = start_config (prepare dorks w) (submit_all envs dorks pages)"

text \<open>
  Leaving the \<^verbatim>\<open>with ThreadPoolExecutor\<close> block waits until every task has finished:
  whatever steps are left are made, task after task.
\<close>

definition drain :: "config \<Rightarrow> config" where
  "drain c =
     exec_schedule
       (concat (map (\<lambda>i. replicate (length (pending c ! i)) i) [0..<length (pending c)])) c"

text \<open>
  Lines 431-436: \<^verbatim>\<open>future.result()\<close> returns what the task returned or raises what it
  raised; the exception is caught and logged (the log is not part of the model).
\<close>

primrec collect :: "(exn + bool) option list \<Rightarrow> exn + unit" where
  "collect [] = Inr ()"
| "collect (future # rest) =
     (case future of
        None \<Rightarrow> collect rest
      | Some (Inl e) \<Rightarrow> collect rest
      | Some (Inr result) \<Rightarrow> collect rest)"

text \<open>
  \<^verbatim>\<open>run\<close>, lines 388-450, from the point where the dorks, the number of pages and the
  number of threads have been read. \<^verbatim>\<open>ThreadPoolExecutor(max_workers=threads)\<close> raises
  \<^verbatim>\<open>ValueError\<close> when \<open>threads \<le> 0\<close> (the standard library checks this in the
  constructor); \<^verbatim>\<open>run\<close> catches only \<^verbatim>\<open>KeyboardInterrupt\<close> around the pool (line 438),
  so the error leaves \<^verbatim>\<open>run\<close>. The schedule \<open>sched\<close> is the order in which the workers
  take their steps.
\<close>

definition run ::
  "string list \<Rightarrow> int \<Rightarrow> int \<Rightarrow> (nat \<Rightarrow> task_env) \<Rightarrow> nat list \<Rightarrow> world \<Rightarrow> (exn + unit) \<times> world" where
  "run dorks pages threads envs sched w =
     (if dorks = [] then (Inr (), w)
      else if threads \<le> 0 then (Inl ValueError, prepare dorks w)
      else
        (let c = drain (exec_schedule sched (run_start dorks pages envs w))
         in (collect (futures c), shared c)))"


section \<open>Concrete answers of the browser and the file system\<close>

text \<open>Inputs at which the theorems below are evaluated.\<close>

definition no_links :: "engine \<Rightarrow> nat \<Rightarrow> fetch" where
  "no_links engine page = Elements []"

text \<open>\<^verbatim>\<open>setup_chrome_driver\<close> returns \<^verbatim>\<open>None\<close>.\<close>

definition no_driver :: attempt where
  "no_driver =
     \<lparr>driver_ok = False, page_fetch = no_links, quit_raises = False,
      save_raises = False, cleanup_raises = False\<rparr>"




text \<open>No link is found and \<^verbatim>\<open>driver.quit()\<close> raises both times it is called.\<close>

definition quit_fails :: attempt where
  "quit_fails =
     \<lparr>driver_ok = True, page_fetch = no_links, quit_raises = True,
      save_raises = False, cleanup_raises = True\<rparr>"

definition quit_always_fails :: task_env where
  "quit_always_fails = \<lparr>attempt_of = (\<lambda>i. quit_fails), errors_write_raises = False\<rparr>"

text \<open>Every dork of the list meets the same answers.\<close>

definition everywhere :: "task_env \<Rightarrow> nat \<Rightarrow> task_env" where
  "everywhere env i = env"



text \<open>
  A page with four elements: a link, an element without \<^verbatim>\<open>href\<close>, a link to Google
  itself, and an empty \<^verbatim>\<open>href\<close>. \<^verbatim>\<open>get_search_results\<close> keeps the first.
\<close>

definition some_hrefs :: "engine \<Rightarrow> nat \<Rightarrow> fetch" where
  "some_hrefs engine page =
     Elements [Some ''http://a.example/'', None, Some ''https://www.google.com/x'', Some []]"

text \<open>Links are found, and \<^verbatim>\<open>results.txt\<close> cannot be opened.\<close>

definition found_unsaved :: attempt where
  "found_unsaved =
     \<lparr>driver_ok = True, page_fetch = some_hrefs, quit_raises = False,
      save_raises = True, cleanup_raises = False\<rparr>"

definition found_nothing :: attempt where
  "found_nothing =
     \<lparr>driver_ok = True, page_fetch = no_links, quit_raises = False,
      save_raises = False, cleanup_raises = False\<rparr>"

definition found_saved :: attempt where
  "found_saved =
     \<lparr>driver_ok = True, page_fetch = some_hrefs, quit_raises = False,
      save_raises = False, cleanup_raises = False\<rparr>"


text \<open>
  The first attempt finds a link and cannot open \<^verbatim>\<open>results.txt\<close>; the later ones find
  nothing, and the file can be opened.
\<close>

definition unsaved_then_nothing :: task_env where
  "unsaved_then_nothing =
     \<lparr>attempt_of = (\<lambda>i. if i = 0 then found_unsaved else found_nothing),
      errors_write_raises = False\<rparr>"

definition finds_at_once :: task_env where
  "finds_at_once = \<lparr>attempt_of = (\<lambda>i. found_saved), errors_write_raises = False\<rparr>"

section \<open>The loops in closed form\<close>

lemma add_urls_0: "add_urls 0 w = w"
  by (simp add: add_urls_def)

lemma add_urls_add_urls: "add_urls m (add_urls n w) = add_urls (n + m) w"
  by (simp add: add_urls_def)

lemma pages_loop_eq:
  "pages_loop g ps acc =
     (fst acc @ concat (map g ps), add_urls (length (concat (map g ps))) (snd acc))"
  by (induction ps arbitrary: acc) (simp_all add: add_urls_0 add_urls_add_urls)

lemma engines_loop_eq:
  "engines_loop a pages search_engines (links, w) =
     (links @ attempt_links a pages,
      add_urls (length (attempt_links a pages)) (note_engine Google w))"
  by (simp add: search_engines_def pages_loop_eq attempt_links_def)

section \<open>Keys that no worker writes\<close>

lemma same_frame_simps:
  "same_frame w w"
  "same_frame w (add_urls n w') = same_frame w w'"
  "same_frame w (note_engine e w') = same_frame w w'"
  "same_frame w (save_results d l w') = same_frame w w'"
  "same_frame w (count_error d b w') = same_frame w w'"
  "same_frame w (w'\<lparr>setup_calls := k\<rparr>) = same_frame w w'"
  by (simp_all add: same_frame_def add_urls_def note_engine_def save_results_def
        count_error_def Let_def)

lemma retry_loop_frame:
  "same_frame w0 w \<Longrightarrow>
   same_frame w0 (snd (snd (retry_loop env err dork pages max_retries retries all_links w)))"
proof (induction env err dork pages max_retries retries all_links w rule: retry_loop.induct)
  case (1 env err dork pages max_retries retries all_links w)
  show ?case
    apply (subst retry_loop.simps)
    using 1
    apply (auto simp: Let_def engines_loop_eq same_frame_simps)
    done
qed

lemma apply_action_frame:
  "same_frame w0 (shared c) \<Longrightarrow> same_frame w0 (shared (apply_action i a c))"
  by (cases a) (simp_all add: same_frame_simps, simp add: same_frame_def)

lemma step_frame: "same_frame w0 (shared c) \<Longrightarrow> same_frame w0 (shared (step i c))"
  by (simp add: step_def apply_action_frame split: list.splits)

lemma exec_schedule_frame:
  "same_frame w0 (shared c) \<Longrightarrow> same_frame w0 (shared (exec_schedule sched c))"
  by (induction sched arbitrary: c) (simp_all add: step_frame)

lemma drain_frame: "same_frame w0 (shared c) \<Longrightarrow> same_frame w0 (shared (drain c))"
  by (simp add: drain_def exec_schedule_frame)

lemma retry_dorks_prepare: "retry_dorks (stats (prepare dorks w)) = retry_dorks (stats w)"
  by (simp add: prepare_def Let_def)

text \<open>
  Claim C10. A call of \<^verbatim>\<open>process_dork\<close> leaves \<^verbatim>\<open>total_dorks\<close>, \<^verbatim>\<open>start_time\<close> and
  \<^verbatim>\<open>retry_dorks\<close> as they were, for every dork, number of pages, retry limit and behaviour
  of the browser and the files, also when the call raises. Nothing else in the program
  writes \<^verbatim>\<open>retry_dorks\<close>: started from \<^verbatim>\<open>__init__\<close>, the statistics display shows
  \<open>Retry Dorks - 0\<close> at every moment of every schedule of the workers, and the key is 0
  when \<^verbatim>\<open>run\<close> ends.
\<close>

theorem process_dork_frame:
  "total_dorks (stats (snd (process_dork env dork pages max_retries w))) = total_dorks (stats w)
   \<and> start_time (stats (snd (process_dork env dork pages max_retries w))) = start_time (stats w)
   \<and> retry_dorks (stats (snd (process_dork env dork pages max_retries w))) = retry_dorks (stats w)
   \<and> shown_retry (display_frame now
        (stats (shared (exec_schedule sched (run_start dorks pages envs (init_world t0)))))) = 0
   \<and> retry_dorks (stats (snd (run dorks pages threads envs sched (init_world t0)))) = 0"
proof -
  have a: "same_frame w (snd (process_dork env dork pages max_retries w))"
    by (simp add: process_dork_def Let_def retry_loop_frame same_frame_simps)
  have s: "same_frame (prepare dorks (init_world t0))
             (shared (run_start dorks pages envs (init_world t0)))"
    by (simp add: run_start_def start_config_def same_frame_simps)
  have p: "retry_dorks (stats (prepare dorks (init_world t0))) = 0"
    by (simp add: retry_dorks_prepare init_world_def init_stats_def)
  have b: "retry_dorks (stats (shared (exec_schedule sched
             (run_start dorks pages envs (init_world t0))))) = 0"
    using exec_schedule_frame [OF s, of sched] p by (simp add: same_frame_def)
  have "same_frame (prepare dorks (init_world t0))
          (shared (drain (exec_schedule sched (run_start dorks pages envs (init_world t0)))))"
    by (rule drain_frame, rule exec_schedule_frame, rule s)
  then have c: "retry_dorks (stats (snd (run dorks pages threads envs sched (init_world t0)))) = 0"
    using p by (simp add: run_def Let_def same_frame_def init_world_def init_stats_def)
  show ?thesis
    using a b c by (simp add: same_frame_def display_frame_def)
qed


section \<open>Attempts that find nothing\<close>





section \<open>The estimate of the remaining time\<close>




section \<open>Errors and run\<close>









text \<open>
  Claim C7 at an input where the code misses it. One dork, one page; the browser starts,
  finds no link, and \<^verbatim>\<open>driver.quit()\<close> raises at line 327 and again in the handler, at
  line 346. The second exception leaves \<^verbatim>\<open>process_dork\<close> before either counter is
  touched: the dork is recorded neither in \<^verbatim>\<open>checked_dorks\<close> nor in \<^verbatim>\<open>error_dorks\<close>,
  \<^verbatim>\<open>run\<close> ends with no outcome for it, and the condition of line 385 never holds.
\<close>

theorem quit_failure_records_nothing:
  "fst (process_dork quit_always_fails ''inurl:admin'' 1 3 (init_world 0))
     = Inl WebDriverException
   \<and> checked_dorks (stats (snd (process_dork quit_always_fails ''inurl:admin'' 1 3
        (init_world 0)))) = 0
   \<and> error_dorks (stats (snd (process_dork quit_always_fails ''inurl:admin'' 1 3
        (init_world 0)))) = 0
   \<and> fst (run [''inurl:admin''] 1 3 (everywhere quit_always_fails) [] (init_world 0)) = Inr ()
   \<and> total_dorks (stats (snd (run [''inurl:admin''] 1 3 (everywhere quit_always_fails) []
        (init_world 0)))) = 1
   \<and> checked_dorks (stats (snd (run [''inurl:admin''] 1 3 (everywhere quit_always_fails) []
        (init_world 0)))) = 0
   \<and> error_dorks (stats (snd (run [''inurl:admin''] 1 3 (everywhere quit_always_fails) []
        (init_world 0)))) = 0
   \<and> \<not> display_finished (stats (snd (run [''inurl:admin''] 1 3 (everywhere quit_always_fails)
        [] (init_world 0))))"
proof -
  have p: "process_dork quit_always_fails ''inurl:admin'' 1 3 (init_world 0)
      = (Inl WebDriverException,
         (init_world 0)\<lparr>setup_calls := 1,
            stats := (init_stats 0)\<lparr>working_engines := [Google]\<rparr>\<rparr>)"
    by (simp add: process_dork_def retry_loop.simps Let_def quit_always_fails_def
        quit_fails_def init_world_def init_stats_def engines_loop_eq add_urls_def
        note_engine_def attempt_links_def range_py_def no_links_def get_search_results_def)
  have r: "run [''inurl:admin''] 1 3 (everywhere quit_always_fails) [] (init_world 0)
      = (Inr (),
         (init_world 0)\<lparr>setup_calls := 1, reporter_started := True,
            stats := (init_stats 0)\<lparr>working_engines := [Google], total_dorks := 1\<rparr>\<rparr>)"
    by (simp add: run_def run_start_def start_config_def prepare_def submit_all_def
        dork_actions_def retry_actions.simps drain_def step_def Let_def everywhere_def
        quit_always_fails_def quit_fails_def init_world_def init_stats_def attempt_links_def
        range_py_def get_search_results_def no_links_def search_engines_def add_urls_def)
  show ?thesis
    unfolding p r by (simp add: init_world_def init_stats_def display_finished_def)
qed

section \<open>What a call collects\<close>

lemma retry_loop_stop:
  "\<not> retries < max_retries \<Longrightarrow>
   retry_loop env err dork pages max_retries retries all_links w =
     (if err then Inl OSError else Inr False, all_links, count_error dork err w)"
  by (simp add: retry_loop.simps)

lemma retry_loop_no_driver:
  "retries < max_retries \<Longrightarrow> \<not> driver_ok (env (nat retries)) \<Longrightarrow>
   retry_loop env err dork pages max_retries retries all_links w =
     retry_loop env err dork pages max_retries (retries + 1) all_links
       (w\<lparr>setup_calls := Suc (setup_calls w)\<rparr>)"
  by (subst retry_loop.simps) (simp add: Let_def)

lemma retry_loop_escape:
  "retries < max_retries \<Longrightarrow> driver_ok (env (nat retries)) \<Longrightarrow>
   try_raises (env (nat retries)) (all_links @ attempt_links (env (nat retries)) pages) \<Longrightarrow>
   cleanup_raises (env (nat retries)) \<Longrightarrow>
   retry_loop env err dork pages max_retries retries all_links w =
     (Inl WebDriverException, all_links @ attempt_links (env (nat retries)) pages,
      after_search (env (nat retries)) pages w)"
  by (subst retry_loop.simps)
    (auto simp add: Let_def engines_loop_eq try_raises_def after_search_def split: if_splits)

lemma retry_loop_saved:
  "retries < max_retries \<Longrightarrow> driver_ok (env (nat retries)) \<Longrightarrow>
   \<not> try_raises (env (nat retries)) (all_links @ attempt_links (env (nat retries)) pages) \<Longrightarrow>
   all_links @ attempt_links (env (nat retries)) pages \<noteq> [] \<Longrightarrow>
   retry_loop env err dork pages max_retries retries all_links w =
     (Inr True, all_links @ attempt_links (env (nat retries)) pages,
      save_results dork (all_links @ attempt_links (env (nat retries)) pages)
        (after_search (env (nat retries)) pages w))"
  by (subst retry_loop.simps)
    (auto simp add: Let_def engines_loop_eq try_raises_def after_search_def split: if_splits)

lemma retry_loop_again:
  "retries < max_retries \<Longrightarrow> driver_ok (env (nat retries)) \<Longrightarrow>
   (if try_raises (env (nat retries)) (all_links @ attempt_links (env (nat retries)) pages)
    then \<not> cleanup_raises (env (nat retries))
    else all_links @ attempt_links (env (nat retries)) pages = []) \<Longrightarrow>
   retry_loop env err dork pages max_retries retries all_links w =
     retry_loop env err dork pages max_retries (retries + 1)
       (all_links @ attempt_links (env (nat retries)) pages)
       (after_search (env (nat retries)) pages w)"
  by (subst retry_loop.simps)
    (auto simp add: Let_def engines_loop_eq try_raises_def after_search_def split: if_splits)

lemma call_summary_step:
  assumes "call_summary env dork pages (Suc n) (all_links @ links_of env pages n) w1 k r"
    and "setup_calls w1 = Suc (setup_calls w)"
    and "urls_parsed (stats w1) = urls_parsed (stats w) + int (length (links_of env pages n))"
    and "results_file w1 = results_file w"
  shows "call_summary env dork pages n all_links w (Suc k) r"
proof -
  have u: "[n..<n + Suc k] = n # [Suc n..<Suc n + k]"
    by (simp add: upt_conv_Cons)
  show ?thesis
    using assms unfolding call_summary_def u by simp
qed

lemma after_search_facts:
  "setup_calls (after_search a pages w) = Suc (setup_calls w)"
  "urls_parsed (stats (after_search a pages w))
     = urls_parsed (stats w) + int (length (attempt_links a pages))"
  "results_file (after_search a pages w) = results_file w"
  by (simp_all add: after_search_def add_urls_def note_engine_def)

text \<open>Induction along the iterations of the loop, one case for each way an iteration ends.\<close>

lemma retry_loop_induct [consumes 0, case_names stop no_driver escape saved again]:
  fixes P :: "int \<Rightarrow> string list \<Rightarrow> world \<Rightarrow> (exn + bool) \<times> string list \<times> world \<Rightarrow> bool"
  assumes stop: "\<And>retries all_links w. \<not> retries < max_retries \<Longrightarrow>
      P retries all_links w
        (if err then Inl OSError else Inr False, all_links, count_error dork err w)"
    and no_driver: "\<And>retries all_links w r. retries < max_retries \<Longrightarrow>
      \<not> driver_ok (env (nat retries)) \<Longrightarrow>
      P (retries + 1) all_links (w\<lparr>setup_calls := Suc (setup_calls w)\<rparr>) r \<Longrightarrow>
      P retries all_links w r"
    and escape: "\<And>retries all_links w. retries < max_retries \<Longrightarrow>
      driver_ok (env (nat retries)) \<Longrightarrow>
      try_raises (env (nat retries)) (all_links @ attempt_links (env (nat retries)) pages) \<Longrightarrow>
      cleanup_raises (env (nat retries)) \<Longrightarrow>
      P retries all_links w
        (Inl WebDriverException, all_links @ attempt_links (env (nat retries)) pages,
         after_search (env (nat retries)) pages w)"
    and saved: "\<And>retries all_links w. retries < max_retries \<Longrightarrow>
      driver_ok (env (nat retries)) \<Longrightarrow>
      \<not> try_raises (env (nat retries)) (all_links @ attempt_links (env (nat retries)) pages) \<Longrightarrow>
      all_links @ attempt_links (env (nat retries)) pages \<noteq> [] \<Longrightarrow>
      P retries all_links w
        (Inr True, all_links @ attempt_links (env (nat retries)) pages,
         save_results dork (all_links @ attempt_links (env (nat retries)) pages)
           (after_search (env (nat retries)) pages w))"
    and again: "\<And>retries all_links w r. retries < max_retries \<Longrightarrow>
      driver_ok (env (nat retries)) \<Longrightarrow>
      (if try_raises (env (nat retries)) (all_links @ attempt_links (env (nat retries)) pages)
       then \<not> cleanup_raises (env (nat retries))
       else all_links @ attempt_links (env (nat retries)) pages = []) \<Longrightarrow>
      P (retries + 1) (all_links @ attempt_links (env (nat retries)) pages)
        (after_search (env (nat retries)) pages w) r \<Longrightarrow>
      P retries all_links w r"
  shows "P retries all_links w (retry_loop env err dork pages max_retries retries all_links w)"
  using assms
proof (induction env err dork pages max_retries retries all_links w rule: retry_loop.induct)
  case (1 env err dork pages max_retries retries all_links w)
  let ?a = "env (nat retries)"
  let ?found = "all_links @ attempt_links ?a pages"
  have el: "engines_loop ?a pages search_engines
             (all_links, w\<lparr>setup_calls := Suc (setup_calls w)\<rparr>)
           = (?found, after_search ?a pages w)"
    by (simp add: engines_loop_eq after_search_def)
  have tr: "(if quit_raises ?a then True
             else if fst (engines_loop ?a pages search_engines
                (all_links, w\<lparr>setup_calls := Suc (setup_calls w)\<rparr>)) \<noteq> []
             then save_raises ?a else False) = try_raises ?a ?found"
    unfolding el fst_conv by (simp add: try_raises_def)
  consider (c_stop) "\<not> retries < max_retries"
    | (c_no_driver) "retries < max_retries" "\<not> driver_ok ?a"
    | (c_escape) "retries < max_retries" "driver_ok ?a" "try_raises ?a ?found" "cleanup_raises ?a"
    | (c_saved) "retries < max_retries" "driver_ok ?a" "\<not> try_raises ?a ?found" "?found \<noteq> []"
    | (c_again) "retries < max_retries" "driver_ok ?a"
        "if try_raises ?a ?found then \<not> cleanup_raises ?a else ?found = []"
    by (cases "try_raises ?a ?found") auto
  then show ?case
  proof cases
    case c_stop
    show ?thesis
      unfolding retry_loop_stop [OF c_stop] by (rule 1(4) [OF c_stop])
  next
    case c_no_driver
    have "P (retries + 1) all_links (w\<lparr>setup_calls := Suc (setup_calls w)\<rparr>)
        (retry_loop env err dork pages max_retries (retries + 1) all_links
           (w\<lparr>setup_calls := Suc (setup_calls w)\<rparr>))"
      using 1(1) [OF c_no_driver(1) refl refl _ 1(4) 1(5) 1(6) 1(7) 1(8)] c_no_driver(2)
      by simp
    from 1(5) [OF c_no_driver this] show ?thesis
      unfolding retry_loop_no_driver [where env = env and retries = retries, OF c_no_driver] .
  next
    case c_escape
    show ?thesis
      unfolding retry_loop_escape [where env = env and retries = retries
          and all_links = all_links and pages = pages, OF c_escape]
      by (rule 1(6) [OF c_escape])
  next
    case c_saved
    show ?thesis
      unfolding retry_loop_saved [where env = env and retries = retries
          and all_links = all_links and pages = pages, OF c_saved]
      by (rule 1(7) [OF c_saved])
  next
    case c_again
    have "P (retries + 1) ?found (after_search ?a pages w)
        (retry_loop env err dork pages max_retries (retries + 1) ?found
           (after_search ?a pages w))"
    proof (cases "try_raises ?a ?found")
      case True
      with c_again(3) have nc: "\<not> cleanup_raises ?a" by simp
      from True have t: "(if quit_raises ?a then True
             else if fst (engines_loop ?a pages search_engines
                (all_links, w\<lparr>setup_calls := Suc (setup_calls w)\<rparr>)) \<noteq> []
             then save_raises ?a else False)"
        unfolding tr .
      from 1(2) [OF c_again(1) refl refl _ refl refl t nc 1(4) 1(5) 1(6) 1(7) 1(8)] c_again(2)
      show ?thesis unfolding el fst_conv snd_conv by simp
    next
      case False
      with c_again(3) have em: "?found = []" by simp
      from False have t: "\<not> (if quit_raises ?a then True
             else if fst (engines_loop ?a pages search_engines
                (all_links, w\<lparr>setup_calls := Suc (setup_calls w)\<rparr>)) \<noteq> []
             then save_raises ?a else False)"
        unfolding tr .
      have f: "\<not> fst (engines_loop ?a pages search_engines
                (all_links, w\<lparr>setup_calls := Suc (setup_calls w)\<rparr>)) \<noteq> []"
        unfolding el fst_conv using em by simp
      from 1(3) [OF c_again(1) refl refl _ refl refl t f 1(4) 1(5) 1(6) 1(7) 1(8)] c_again(2)
      show ?thesis unfolding el fst_conv snd_conv by simp
    qed
    from 1(8) [OF c_again this] show ?thesis
      unfolding retry_loop_again [where env = env and retries = retries
          and all_links = all_links and pages = pages, OF c_again] .
  qed
qed

lemma retry_loop_True_nonempty:
  "fst (retry_loop env err dork pages max_retries retries all_links w) = Inr True \<longrightarrow>
   fst (snd (retry_loop env err dork pages max_retries retries all_links w)) \<noteq> []"
  by (rule retry_loop_induct [where P = "\<lambda>retries all_links w r. fst r = Inr True \<longrightarrow> fst (snd r) \<noteq> []"])
     auto

lemma nat_Suc_retries: "0 \<le> retries \<Longrightarrow> nat (retries + 1) = Suc (nat retries)"
  by simp

lemma retry_loop_summary:
  "0 \<le> retries \<longrightarrow>
   (\<exists>k. call_summary env dork pages (nat retries) all_links w k
         (retry_loop env err dork pages max_retries retries all_links w))"
proof (rule retry_loop_induct [where P = "\<lambda>retries all_links w r. 0 \<le> retries \<longrightarrow>
     (\<exists>k. call_summary env dork pages (nat retries) all_links w k r)"], goal_cases)
  case (1 retries all_links w)
  have "call_summary env dork pages (nat retries) all_links w 0
     (if err then Inl OSError else Inr False, all_links, count_error dork err w)"
    by (simp add: call_summary_def count_error_def Let_def)
  then show ?case by blast
next
  case (2 retries all_links w r)
  show ?case
  proof
    assume p: "0 \<le> retries"
    with 2(3) obtain k where "call_summary env dork pages (Suc (nat retries)) all_links
        (w\<lparr>setup_calls := Suc (setup_calls w)\<rparr>) k r"
      by (auto simp: nat_Suc_retries)
    with 2(2) have "call_summary env dork pages (Suc (nat retries))
        (all_links @ links_of env pages (nat retries))
        (w\<lparr>setup_calls := Suc (setup_calls w)\<rparr>) k r"
      by (simp add: links_of_def)
    from call_summary_step [OF this, of w] 2(2)
    have "call_summary env dork pages (nat retries) all_links w (Suc k) r"
      by (simp add: links_of_def)
    then show "\<exists>k. call_summary env dork pages (nat retries) all_links w k r" ..
  qed
next
  case (3 retries all_links w)
  then have "call_summary env dork pages (nat retries) all_links w 1
     (Inl WebDriverException, all_links @ attempt_links (env (nat retries)) pages,
      after_search (env (nat retries)) pages w)"
    by (simp add: call_summary_def after_search_facts links_of_def)
  then show ?case by blast
next
  case (4 retries all_links w)
  then have "call_summary env dork pages (nat retries) all_links w 1
     (Inr True, all_links @ attempt_links (env (nat retries)) pages,
      save_results dork (all_links @ attempt_links (env (nat retries)) pages)
        (after_search (env (nat retries)) pages w))"
    by (simp add: call_summary_def after_search_facts links_of_def save_results_def)
  then show ?case by blast
next
  case (5 retries all_links w r)
  show ?case
  proof
    assume p: "0 \<le> retries"
    with 5(4) obtain k where "call_summary env dork pages (Suc (nat retries))
        (all_links @ attempt_links (env (nat retries)) pages)
        (after_search (env (nat retries)) pages w) k r"
      by (auto simp: nat_Suc_retries)
    with 5(2) have "call_summary env dork pages (Suc (nat retries))
        (all_links @ links_of env pages (nat retries))
        (after_search (env (nat retries)) pages w) k r"
      by (simp add: links_of_def)
    from call_summary_step [OF this, of w] 5(2)
    have "call_summary env dork pages (nat retries) all_links w (Suc k) r"
      by (simp add: links_of_def after_search_facts)
    then show "\<exists>k. call_summary env dork pages (nat retries) all_links w k r" ..
  qed
qed


lemma process_dork_summary:
  "call_summary (attempt_of env) dork pages 0 [] w
     (setup_calls (snd (process_dork env dork pages max_retries w)) - setup_calls w)
     (retry_loop (attempt_of env) (errors_write_raises env) dork pages max_retries 0 [] w)"
proof -
  from retry_loop_summary [where retries = 0 and env = "attempt_of env" and dork = dork
      and pages = pages and all_links = "[]" and w = w and err = "errors_write_raises env"
      and max_retries = max_retries]
  obtain k where k: "call_summary (attempt_of env) dork pages 0 [] w k
     (retry_loop (attempt_of env) (errors_write_raises env) dork pages max_retries 0 [] w)"
    by auto
  then have "setup_calls (snd (process_dork env dork pages max_retries w)) - setup_calls w = k"
    by (simp add: call_summary_def process_dork_def Let_def)
  with k show ?thesis by simp
qed




text \<open>
  Claim C5, as the code has it. \<^verbatim>\<open>all_links\<close> is created once per call (line 289), before
  the loop, and is never emptied: the list that is tested at line 329 and written on
  success holds the links of every attempt made so far, the earlier ones first. When a
  call returns \<^verbatim>\<open>True\<close>, that list is not empty and it is what is written to
  \<^verbatim>\<open>results.txt\<close>.
\<close>

theorem all_links_kept_between_attempts:
  "fst (snd (retry_loop (attempt_of env) (errors_write_raises env) dork pages max_retries 0 [] w))
     = collected (attempt_of env) pages
         (setup_calls (snd (process_dork env dork pages max_retries w)) - setup_calls w)
   \<and> (fst (process_dork env dork pages max_retries w) = Inr True \<longrightarrow>
        collected (attempt_of env) pages
          (setup_calls (snd (process_dork env dork pages max_retries w)) - setup_calls w) \<noteq> []
        \<and> results_file (snd (process_dork env dork pages max_retries w))
          = append_text (results_file w)
              (results_entry dork (collected (attempt_of env) pages
                 (setup_calls (snd (process_dork env dork pages max_retries w))
                    - setup_calls w))))"
proof -
  let ?r = "retry_loop (attempt_of env) (errors_write_raises env) dork pages max_retries 0 [] w"
  let ?k = "setup_calls (snd (process_dork env dork pages max_retries w)) - setup_calls w"
  have p: "process_dork env dork pages max_retries w = (fst ?r, snd (snd ?r))"
    by (simp add: process_dork_def Let_def)
  have s: "call_summary (attempt_of env) dork pages 0 [] w ?k ?r"
    by (rule process_dork_summary)
  have l: "fst (snd ?r) = collected (attempt_of env) pages ?k"
    using s by (simp add: call_summary_def collected_def)
  have b: "results_file (snd (snd ?r))
      = append_text (results_file w) (results_entry dork (collected (attempt_of env) pages ?k))"
    if "fst ?r = Inr True"
    using s that l by (simp add: call_summary_def)
  have c: "collected (attempt_of env) pages ?k \<noteq> []" if "fst ?r = Inr True"
    using retry_loop_True_nonempty [of "attempt_of env" "errors_write_raises env" dork pages max_retries 0 "[]" w] that l by simp
  show ?thesis
    using l b c unfolding p fst_conv snd_conv by blast
qed

theorem all_links_kept_between_attempts_witness:
  "fst (process_dork unsaved_then_nothing ''inurl:admin'' 1 3 (init_world 0)) = Inr True
   \<and> collected (attempt_of unsaved_then_nothing) 1
        (setup_calls (snd (process_dork unsaved_then_nothing ''inurl:admin'' 1 3 (init_world 0)))
           - setup_calls (init_world 0)) = [''http://a.example/'']
   \<and> results_file (snd (process_dork unsaved_then_nothing ''inurl:admin'' 1 3 (init_world 0)))
        = Some (results_entry ''inurl:admin'' [''http://a.example/''])"
proof -
  have f: "process_dork unsaved_then_nothing ''inurl:admin'' 1 3 (init_world 0)
      = (Inr True,
         (init_world 0)\<lparr>setup_calls := 2,
            results_file := Some (results_entry ''inurl:admin'' [''http://a.example/'']),
            stats := (init_stats 0)\<lparr>working_engines := [Google], urls_parsed := 1,
               checked_dorks := 1\<rparr>\<rparr>)"
    by (simp add: process_dork_def retry_loop.simps Let_def unsaved_then_nothing_def
        found_unsaved_def found_nothing_def some_hrefs_def no_links_def engines_loop_eq
        attempt_links_def range_py_def get_search_results_def startswith_def init_world_def
        init_stats_def add_urls_def note_engine_def save_results_def append_text_def)
  show ?thesis
    using all_links_kept_between_attempts
      [of unsaved_then_nothing "''inurl:admin''" 1 3 "init_world 0"]
    unfolding f fst_conv snd_conv
    by (simp add: init_world_def append_text_def collected_def links_of_def
        unsaved_then_nothing_def found_unsaved_def found_nothing_def some_hrefs_def
        no_links_def attempt_links_def range_py_def get_search_results_def startswith_def
        upt_rec [of 0] upt_rec [of 1])
qed

text \<open>
  The first attempt finds a link and fails at opening \<^verbatim>\<open>results.txt\<close>; the second
  attempt finds nothing, and the call returns \<^verbatim>\<open>True\<close> with the link of the first.
\<close>

theorem stale_links_make_success:
  "fst (process_dork unsaved_then_nothing ''inurl:admin'' 1 3 (init_world 0)) = Inr True
   \<and> setup_calls (snd (process_dork unsaved_then_nothing ''inurl:admin'' 1 3 (init_world 0))) = 2
   \<and> attempt_links (attempt_of unsaved_then_nothing 1) 1 = []
   \<and> attempt_links (attempt_of unsaved_then_nothing 0) 1 = [''http://a.example/'']
   \<and> results_file (snd (process_dork unsaved_then_nothing ''inurl:admin'' 1 3 (init_world 0)))
        = Some (results_entry ''inurl:admin'' [''http://a.example/''])"
  by (simp add: process_dork_def retry_loop.simps Let_def unsaved_then_nothing_def
        found_unsaved_def found_nothing_def some_hrefs_def no_links_def engines_loop_eq
        attempt_links_def range_py_def get_search_results_def startswith_def init_world_def
        init_stats_def add_urls_def note_engine_def save_results_def append_text_def)

section \<open>The steps of a call and the call\<close>

lemma retry_actions_stop:
  "\<not> retries < max_retries \<Longrightarrow>
   retry_actions env err dork pages max_retries retries all_links =
     [Count_error dork err, Finish (if err then Inl OSError else Inr False)]"
  by (simp add: retry_actions.simps)

lemma retry_actions_no_driver:
  "retries < max_retries \<Longrightarrow> \<not> driver_ok (env (nat retries)) \<Longrightarrow>
   retry_actions env err dork pages max_retries retries all_links =
     Setup_driver # retry_actions env err dork pages max_retries (retries + 1) all_links"
  by (subst retry_actions.simps) (simp add: Let_def)

lemma retry_actions_escape:
  "retries < max_retries \<Longrightarrow> driver_ok (env (nat retries)) \<Longrightarrow>
   try_raises (env (nat retries)) (all_links @ attempt_links (env (nat retries)) pages) \<Longrightarrow>
   cleanup_raises (env (nat retries)) \<Longrightarrow>
   retry_actions env err dork pages max_retries retries all_links =
     Setup_driver # engines_actions (env (nat retries)) pages search_engines
       @ [Finish (Inl WebDriverException)]"
  by (subst retry_actions.simps) (auto simp add: Let_def try_raises_def split: if_splits)

lemma retry_actions_saved:
  "retries < max_retries \<Longrightarrow> driver_ok (env (nat retries)) \<Longrightarrow>
   \<not> try_raises (env (nat retries)) (all_links @ attempt_links (env (nat retries)) pages) \<Longrightarrow>
   all_links @ attempt_links (env (nat retries)) pages \<noteq> [] \<Longrightarrow>
   retry_actions env err dork pages max_retries retries all_links =
     Setup_driver # engines_actions (env (nat retries)) pages search_engines
       @ [Save_results dork (all_links @ attempt_links (env (nat retries)) pages),
          Finish (Inr True)]"
  by (subst retry_actions.simps) (auto simp add: Let_def try_raises_def split: if_splits)

lemma retry_actions_again:
  "retries < max_retries \<Longrightarrow> driver_ok (env (nat retries)) \<Longrightarrow>
   (if try_raises (env (nat retries)) (all_links @ attempt_links (env (nat retries)) pages)
    then \<not> cleanup_raises (env (nat retries))
    else all_links @ attempt_links (env (nat retries)) pages = []) \<Longrightarrow>
   retry_actions env err dork pages max_retries retries all_links =
     Setup_driver # engines_actions (env (nat retries)) pages search_engines
       @ retry_actions env err dork pages max_retries (retries + 1)
           (all_links @ attempt_links (env (nat retries)) pages)"
  by (subst retry_actions.simps) (auto simp add: Let_def try_raises_def split: if_splits)

lemma uninterrupted_simps:
  "uninterrupted i [] c = c"
  "uninterrupted i (a # as) c = uninterrupted i as (apply_action i a c)"
  "uninterrupted i (as @ bs) c = uninterrupted i bs (uninterrupted i as c)"
  by (simp_all add: uninterrupted_def)

lemma uninterrupted_add_urls:
  "shared (uninterrupted i (map (\<lambda>page. Add_urls (f page)) ps) c)
     = add_urls (sum_list (map f ps)) (shared c)
   \<and> not_listed (uninterrupted i (map (\<lambda>page. Add_urls (f page)) ps) c) = not_listed c
   \<and> futures (uninterrupted i (map (\<lambda>page. Add_urls (f page)) ps) c) = futures c"
  by (induction ps arbitrary: c)
    (simp_all add: uninterrupted_simps add_urls_0 add_urls_add_urls)

lemma uninterrupted_search:
  assumes "i < length (not_listed c)"
  shows "shared (uninterrupted i (engines_actions a pages search_engines) c)
           = add_urls (length (attempt_links a pages)) (note_engine Google (shared c))
         \<and> length (not_listed (uninterrupted i (engines_actions a pages search_engines) c))
           = length (not_listed c)
         \<and> futures (uninterrupted i (engines_actions a pages search_engines) c) = futures c"
proof -
  have l: "length (attempt_links a pages)
      = sum_list (map (\<lambda>page. length (get_search_results (page_fetch a Google page) Google))
          (range_py pages))"
    by (simp add: attempt_links_def length_concat comp_def)
  show ?thesis
    using assms
    by (simp add: search_engines_def uninterrupted_simps uninterrupted_add_urls
        note_engine_def l)
qed

lemma uninterrupted_retry_actions:
  "\<forall>c. shared c = w \<and> i < length (not_listed c) \<and> i < length (futures c) \<longrightarrow>
     shared (uninterrupted i
        (retry_actions env err dork pages max_retries retries all_links) c)
       = snd (snd (retry_loop env err dork pages max_retries retries all_links w))
     \<and> futures (uninterrupted i
        (retry_actions env err dork pages max_retries retries all_links) c) ! i
       = Some (fst (retry_loop env err dork pages max_retries retries all_links w))"
proof (rule retry_loop_induct [where P = "\<lambda>retries all_links w r.
    \<forall>c. shared c = w \<and> i < length (not_listed c) \<and> i < length (futures c) \<longrightarrow>
     shared (uninterrupted i
        (retry_actions env err dork pages max_retries retries all_links) c) = snd (snd r)
     \<and> futures (uninterrupted i
        (retry_actions env err dork pages max_retries retries all_links) c) ! i
       = Some (fst r)"], goal_cases)
  case (1 retries all_links w)
  then show ?case
    by (simp add: retry_actions_stop uninterrupted_simps)
next
  case (2 retries all_links w r)
  then show ?case
    by (simp add: retry_actions_no_driver [where env = env and retries = retries]
        uninterrupted_simps)
next
  case (3 retries all_links w)
  then show ?case
    by (simp add: retry_actions_escape [where env = env and retries = retries
          and all_links = all_links and pages = pages]
        uninterrupted_simps uninterrupted_search after_search_def)
next
  case (4 retries all_links w)
  then show ?case
    by (simp add: retry_actions_saved [where env = env and retries = retries
          and all_links = all_links and pages = pages]
        uninterrupted_simps uninterrupted_search after_search_def)
next
  case (5 retries all_links w r)
  show ?case
  proof (intro allI impI, elim conjE)
    fix c :: config
    assume c: "shared c = w" "i < length (not_listed c)" "i < length (futures c)"
    let ?a = "env (nat retries)"
    let ?c1 = "uninterrupted i (engines_actions ?a pages search_engines)
        (apply_action i Setup_driver c)"
    from uninterrupted_search [of i "apply_action i Setup_driver c" ?a pages] c
    have c1: "shared ?c1 = after_search ?a pages w" "i < length (not_listed ?c1)"
      "i < length (futures ?c1)"
      by (simp_all add: after_search_def)
    from 5(4) [rule_format, of ?c1] c1
    show "shared (uninterrupted i
        (retry_actions env err dork pages max_retries retries all_links) c) = snd (snd r)
     \<and> futures (uninterrupted i
        (retry_actions env err dork pages max_retries retries all_links) c) ! i
       = Some (fst r)"
      unfolding retry_actions_again [where env = env and retries = retries
          and all_links = all_links and pages = pages, OF 5(1,2,3)]
        uninterrupted_simps(2,3)
      by simp
  qed
qed

lemma apply_action_same_state:
  "same_state c c' \<Longrightarrow> same_state (apply_action i a c) (apply_action i a c')"
  by (cases a) (simp_all add: same_state_def)

lemma uninterrupted_same_state:
  "same_state c c' \<Longrightarrow> same_state (uninterrupted i as c) (uninterrupted i as c')"
  by (induction as arbitrary: c c') (simp_all add: uninterrupted_simps apply_action_same_state)

lemma exec_own_steps:
  "i < length (pending c) \<Longrightarrow> pending c ! i = as @ rest \<Longrightarrow>
   same_state (exec_schedule (replicate (length as) i) c) (uninterrupted i as c)"
proof (induction as arbitrary: c)
  case Nil
  then show ?case by (simp add: uninterrupted_simps same_state_def)
next
  case (Cons a as)
  let ?c1 = "step i c"
  have s: "?c1 = (apply_action i a c)
      \<lparr>executed := (executed c)[i := executed c ! i @ [a]],
       pending := (pending c)[i := as @ rest]\<rparr>"
    using Cons.prems by (simp add: step_def)
  have "i < length (pending ?c1)" "pending ?c1 ! i = as @ rest"
    using Cons.prems by (simp_all add: s)
  from Cons.IH [OF this]
  have 1: "same_state (exec_schedule (replicate (length as) i) ?c1) (uninterrupted i as ?c1)" .
  have "same_state ?c1 (apply_action i a c)"
    by (simp add: s same_state_def)
  from uninterrupted_same_state [OF this]
  have 2: "same_state (uninterrupted i as ?c1) (uninterrupted i as (apply_action i a c))" .
  from 1 2 show ?case
    by (simp add: uninterrupted_simps same_state_def)
qed

text \<open>
  The steps of a call, made without interruption, are the call: they leave the world that
  \<^verbatim>\<open>process_dork\<close> leaves, and the future holds what \<^verbatim>\<open>process_dork\<close> returns or raises.
\<close>

lemma process_dork_uninterrupted:
  "shared (exec_schedule (replicate (length (dork_actions env dork pages max_retries)) 0)
      (start_config w [dork_actions env dork pages max_retries]))
     = snd (process_dork env dork pages max_retries w)
   \<and> futures (exec_schedule (replicate (length (dork_actions env dork pages max_retries)) 0)
      (start_config w [dork_actions env dork pages max_retries])) ! 0
     = Some (fst (process_dork env dork pages max_retries w))"
proof -
  let ?as = "dork_actions env dork pages max_retries"
  let ?c = "start_config w [?as]"
  have "same_state (exec_schedule (replicate (length ?as) 0) ?c) (uninterrupted 0 ?as ?c)"
    by (rule exec_own_steps [where rest = "[]"]) (simp_all add: start_config_def)
  moreover from uninterrupted_retry_actions [where w = w and i = 0
      and env = "attempt_of env" and err = "errors_write_raises env" and dork = dork
      and pages = pages and max_retries = max_retries and retries = 0 and all_links = "[]",
      rule_format, of ?c]
  have "shared (uninterrupted 0 ?as ?c) = snd (process_dork env dork pages max_retries w)
     \<and> futures (uninterrupted 0 ?as ?c) ! 0
         = Some (fst (process_dork env dork pages max_retries w))"
    by (simp add: dork_actions_def process_dork_def Let_def start_config_def)
  ultimately show ?thesis
    by (simp add: same_state_def)
qed

section \<open>The counters under every schedule\<close>




lemma apply_action_lists:
  "executed (apply_action i a c) = executed c"
  "pending (apply_action i a c) = pending c"
  by (cases a; simp)+













section \<open>The list of working engines\<close>

text \<open>
  Claim C9 at an input where the code misses it. The counters are written inside
  \<^verbatim>\<open>with self.lock\<close>; the test of line 308 and the \<^verbatim>\<open>append\<close> of line 309 on
  \<^verbatim>\<open>working_engines\<close> are not. Two dorks, two workers: both set up their driver, both
  find Google missing from the list, both append it. The list is
  \<open>[Google, Google]\<close> then and when \<^verbatim>\<open>run\<close> ends, where the same steps made one task
  after the other leave \<open>[Google]\<close>.
\<close>

theorem engine_list_race:
  "working_engines (stats (shared (exec_schedule [0, 1, 0, 1, 0, 1]
      (run_start [''inurl:a'', ''inurl:b''] 1 (everywhere finds_at_once) (init_world 0)))))
     = [Google, Google]
   \<and> working_engines (stats (shared (exec_schedule [0, 0, 0, 1, 1, 1]
      (run_start [''inurl:a'', ''inurl:b''] 1 (everywhere finds_at_once) (init_world 0)))))
     = [Google]
   \<and> \<not> under_lock (Check_engine Google) \<and> \<not> under_lock (Append_engine Google)
   \<and> working_engines (stats (snd (run [''inurl:a'', ''inurl:b''] 1 2
        (everywhere finds_at_once) [0, 1, 0, 1, 0, 1] (init_world 0))))
     = [Google, Google]
   \<and> working_engines (stats (snd (run [''inurl:a'', ''inurl:b''] 1 2
        (everywhere finds_at_once) [] (init_world 0))))
     = [Google]"
proof -
  have steps: "working_engines (stats (shared (exec_schedule [0, 1, 0, 1, 0, 1]
        (run_start [''inurl:a'', ''inurl:b''] 1 (everywhere finds_at_once) (init_world 0)))))
       = [Google, Google]
     \<and> working_engines (stats (shared (exec_schedule [0, 0, 0, 1, 1, 1]
        (run_start [''inurl:a'', ''inurl:b''] 1 (everywhere finds_at_once) (init_world 0)))))
       = [Google]"
    by (simp add: run_start_def start_config_def prepare_def submit_all_def
        dork_actions_def retry_actions.simps step_def Let_def everywhere_def
        finds_at_once_def found_saved_def init_world_def init_stats_def attempt_links_def
        range_py_def get_search_results_def some_hrefs_def search_engines_def startswith_def
        numeral_2_eq_2)
  have whole: "working_engines (stats (snd (run [''inurl:a'', ''inurl:b''] 1 2
          (everywhere finds_at_once) [0, 1, 0, 1, 0, 1] (init_world 0))))
       = [Google, Google]
     \<and> working_engines (stats (snd (run [''inurl:a'', ''inurl:b''] 1 2
          (everywhere finds_at_once) [] (init_world 0))))
       = [Google]"
    by (simp add: run_def drain_def run_start_def start_config_def prepare_def submit_all_def
        dork_actions_def retry_actions.simps step_def Let_def everywhere_def
        finds_at_once_def found_saved_def init_world_def init_stats_def attempt_links_def
        range_py_def get_search_results_def some_hrefs_def search_engines_def startswith_def
        numeral_2_eq_2 add_urls_def save_results_def)
  show ?thesis
    using steps whole by simp
qed

end
